theory Spec2Isabelle
  imports Main "HOL-Library.Char_ord" "HOL-Library.List_Lexorder" "HOL-Library.AList"
    "HOL-Library.Multiset"
begin

section \<open>Input values\<close>

text \<open>
  The input of \<open>shape\<close> is a nested Python value.  A float is kept as mantissa and binary
  exponent (\<open>Finite m e\<close> is \<open>m * 2 ^ e\<close>), an infinity or a NaN: the code only asks
  whether it equals \<open>0\<close>.  \<open>OtherV n\<close> is any other object that is neither a sequence nor a
  dict, \<open>n\<close> being the name of its type.  \<open>Seq\<close> stands for every type of the
  \<open>isinstance\<close> test of \<open>_get_paths\<close> (generator, list, map, filter, tuple), \<open>Map\<close> for a
  dict in insertion order, with strings as keys as in a decoded JSON text (a Python
  dict has no key twice).  The recursion limit of the interpreter is left out.
\<close>

datatype pyfloat = Finite int int | Infinity bool | NaN

datatype scalar = NoneV | BoolV bool | IntV int | FloatV pyfloat | StrV string | OtherV string

datatype pyval = Scalar scalar | Seq "pyval list" | Map "(string \<times> pyval) list"

section \<open>Paths\<close>

text \<open>
  A path is a Python tuple whose components are \<open>Index\<close> objects and strings; the last
  component is the type label, itself a plain string.
\<close>

datatype seg = Idx nat | Str string

type_synonym path = "seg list"

datatype error = ReError | AttributeError | TypeError | IndexError | KeyError

fun and_then :: "error + 'a \<Rightarrow> ('a \<Rightarrow> error + 'b) \<Rightarrow> error + 'b" where
  "and_then (Inl e) f = Inl e"
| "and_then (Inr x) f = f x"

fun map_err :: "('a \<Rightarrow> error + 'b) \<Rightarrow> 'a list \<Rightarrow> error + 'b list" where
  "map_err f [] = Inr []"
| "map_err f (x # xs) =
     (case f x of Inl e \<Rightarrow> Inl e
      | Inr y \<Rightarrow> (case map_err f xs of Inl e \<Rightarrow> Inl e | Inr ys \<Rightarrow> Inr (y # ys)))"

subsection \<open>\<open>_get_paths\<close>\<close>

fun type_name :: "scalar \<Rightarrow> string" where
  "type_name NoneV = ''NoneType''"
| "type_name (BoolV b) = ''bool''"
| "type_name (IntV i) = ''int''"
| "type_name (FloatV f) = ''float''"
| "type_name (StrV s) = ''str''"
| "type_name (OtherV n) = n"

text \<open>\<open>typ in (int, float)\<close>: the exact type, so a bool is not a number here.\<close>

fun typ_in_int_float :: "scalar \<Rightarrow> bool" where
  "typ_in_int_float (IntV i) = True"
| "typ_in_int_float (FloatV f) = True"
| "typ_in_int_float s = False"

text \<open>\<open>data == 0\<close> for an int or a float.\<close>

fun eq_zero :: "scalar \<Rightarrow> bool" where
  "eq_zero (IntV i) = (i = 0)"
| "eq_zero (FloatV (Finite m e)) = (m = 0)"
| "eq_zero s = False"

definition leaf_label :: "bool \<Rightarrow> scalar \<Rightarrow> string" where
  "leaf_label describe_numbers data =
     (if describe_numbers \<and> typ_in_int_float data
      then type_name data @ '':'' @ (if eq_zero data then ''zero'' else ''nonzero'')
      else type_name data)"

text \<open>
  The loop \<open>for k, v in kv_iter\<close> is \<open>get_paths_seq\<close> over the elements of a sequence,
  numbered from \<open>i\<close> by \<open>enumerate\<close>, and \<open>get_paths_map\<close> over the items of a dict.
\<close>

fun get_paths :: "bool \<Rightarrow> pyval \<Rightarrow> path \<Rightarrow> path list"
  and get_paths_seq :: "bool \<Rightarrow> nat \<Rightarrow> pyval list \<Rightarrow> path \<Rightarrow> path list"
  and get_paths_map :: "bool \<Rightarrow> (string \<times> pyval) list \<Rightarrow> path \<Rightarrow> path list" where
  "get_paths dn (Scalar s) prefix = [[Str (leaf_label dn s)]]"
| "get_paths dn (Seq vs) prefix = get_paths_seq dn 0 vs prefix"
| "get_paths dn (Map kvs) prefix = get_paths_map dn kvs prefix"
| "get_paths_seq dn i [] prefix = []"
| "get_paths_seq dn i (v # vs) prefix =
     map (\<lambda>kvp. prefix @ kvp) (map (\<lambda>p. Idx i # p) (get_paths dn v prefix))
     @ get_paths_seq dn (Suc i) vs prefix"
| "get_paths_map dn [] prefix = []"
| "get_paths_map dn (kv # kvs) prefix =
     map (\<lambda>kvp. prefix @ kvp) (map (\<lambda>p. Str (fst kv) # p) (get_paths dn (snd kv) prefix))
     @ get_paths_map dn kvs prefix"

subsection \<open>\<open>apply_patterns\<close> and \<open>_apply_patterns\<close>\<close>

text \<open>
  \<open>re.sub\<close> belongs to Python's library, so it is a parameter: \<open>re_sub pattern repl s\<close> is
  the rewritten string, or \<open>None\<close> when \<open>re.sub\<close> raises \<open>re.error\<close>.  \<open>key_patterns\<close> is
  \<open>None\<close> or a dict from pattern to replacement, in insertion order.
\<close>

type_synonym re_sub = "string \<Rightarrow> string \<Rightarrow> string \<Rightarrow> string option"

fun sub_all :: "re_sub \<Rightarrow> (string \<times> string) list \<Rightarrow> string \<Rightarrow> error + string" where
  "sub_all re_sub [] s = Inr s"
| "sub_all re_sub (pr # ps) s =
     (case re_sub (fst pr) (snd pr) s of None \<Rightarrow> Inl ReError
      | Some s' \<Rightarrow> sub_all re_sub ps s')"

fun apply_patterns :: "re_sub \<Rightarrow> (string \<times> string) list option \<Rightarrow> seg \<Rightarrow> error + seg" where
  "apply_patterns re_sub None x = Inr x"
| "apply_patterns re_sub (Some ps) (Idx i) = Inr (Idx i)"
| "apply_patterns re_sub (Some ps) (Str s) =
     (case sub_all re_sub ps s of Inl e \<Rightarrow> Inl e | Inr s' \<Rightarrow> Inr (Str s'))"

definition apply_patterns_paths ::
  "re_sub \<Rightarrow> (string \<times> string) list option \<Rightarrow> path list \<Rightarrow> error + path list" where
  "apply_patterns_paths re_sub key_patterns paths =
     map_err (map_err (apply_patterns re_sub key_patterns)) paths"

subsection \<open>\<open>_describe_numbers\<close>\<close>

text \<open>
  A component of a path is an \<open>Index\<close> or a string, never an int or a float, so the
  \<open>isinstance\<close> test fails on every path; \<open>path[-1]\<close> of an empty tuple raises.
\<close>

definition describe_numbers_paths :: "bool \<Rightarrow> path list \<Rightarrow> error + path list" where
  "describe_numbers_paths describe_numbers paths =
     (if \<not> describe_numbers then Inr paths
      else if [] \<in> set paths then Inl IndexError else Inr paths)"

subsection \<open>\<open>sorted\<close>\<close>

text \<open>
  The comparisons of Python on the components of a path.  \<open>Index.__eq__\<close> and
  \<open>Index.__lt__\<close> read \<open>other.i\<close>, which a string does not have (AttributeError); a string
  has no order against an \<open>Index\<close> (TypeError).  Strings compare by code point.
\<close>

fun seg_eq :: "seg \<Rightarrow> seg \<Rightarrow> error + bool" where
  "seg_eq (Idx i) (Idx j) = Inr (i = j)"
| "seg_eq (Str a) (Str b) = Inr (a = b)"
| "seg_eq (Idx i) (Str b) = Inl AttributeError"
| "seg_eq (Str a) (Idx j) = Inl AttributeError"

fun seg_lt :: "seg \<Rightarrow> seg \<Rightarrow> error + bool" where
  "seg_lt (Idx i) (Idx j) = Inr (i < j)"
| "seg_lt (Str a) (Str b) = Inr (a < b)"
| "seg_lt (Idx i) (Str b) = Inl AttributeError"
| "seg_lt (Str a) (Idx j) = Inl TypeError"

text \<open>
  \<open>p < q\<close> on tuples: the first position where the components are not \<open>==\<close> decides by
  \<open><\<close>, and a proper prefix is smaller.
\<close>

fun tuple_lt :: "path \<Rightarrow> path \<Rightarrow> error + bool" where
  "tuple_lt [] [] = Inr False"
| "tuple_lt [] (y # ys) = Inr True"
| "tuple_lt (x # xs) [] = Inr False"
| "tuple_lt (x # xs) (y # ys) =
     (case seg_eq x y of Inl e \<Rightarrow> Inl e
      | Inr True \<Rightarrow> tuple_lt xs ys
      | Inr False \<Rightarrow> seg_lt x y)"

definition comparable :: "path \<Rightarrow> path \<Rightarrow> bool" where
  "comparable p q = (case tuple_lt p q of Inl e \<Rightarrow> False | Inr b \<Rightarrow> True)"

text \<open>
  A linear order on path components that agrees with Python wherever Python has an answer
  (\<open>tuple_lt_less\<close> below), every \<open>Index\<close> put before every string; lists are ordered
  lexicographically by \<open>List_Lexorder\<close>, as tuples are.
\<close>

instantiation seg :: linorder
begin

fun less_eq_seg :: "seg \<Rightarrow> seg \<Rightarrow> bool" where
  "less_eq_seg (Idx i) (Idx j) = (i \<le> j)"
| "less_eq_seg (Idx i) (Str b) = True"
| "less_eq_seg (Str a) (Idx j) = False"
| "less_eq_seg (Str a) (Str b) = (a \<le> b)"

definition less_seg :: "seg \<Rightarrow> seg \<Rightarrow> bool" where
  "less_seg x y = (x \<le> y \<and> \<not> y \<le> x)"

instance
proof
  fix x y z :: seg
  show "(x < y) = (x \<le> y \<and> \<not> y \<le> x)" by (simp add: less_seg_def)
  show "x \<le> x" by (cases x) simp_all
  show "x \<le> y \<Longrightarrow> y \<le> z \<Longrightarrow> x \<le> z" by (cases x; cases y; cases z) auto
  show "x \<le> y \<Longrightarrow> y \<le> x \<Longrightarrow> x = y" by (cases x; cases y) auto
  show "x \<le> y \<or> y \<le> x" by (cases x; cases y) auto
qed

end

text \<open>
  \<open>sorted\<close> is Python's built-in stable comparison sort.  A comparison that raises ends
  the sort with that exception, and two paths whose comparison raises cannot be ordered
  through a third path (whatever compares with one of them and lies between them fails
  against the other), so the sort raises exactly when some two of the paths are not
  comparable; the exception is the AttributeError of \<open>==\<close>, which a tuple comparison tries
  first.  Otherwise the result is the list in ascending order.
\<close>

definition py_sorted :: "path list \<Rightarrow> error + path list" where
  "py_sorted paths =
     (if list_all (\<lambda>p. list_all (comparable p) paths) paths then Inr (sort paths)
      else Inl AttributeError)"

subsection \<open>\<open>_collapse_paths\<close>\<close>

fun collapse_seg :: "seg \<Rightarrow> seg" where
  "collapse_seg (Idx i) = Idx 0"
| "collapse_seg (Str s) = Str s"

text \<open>
  Keys of a dict are compared by \<open>==\<close> when their hashes are equal.  \<open>Index.__hash__\<close>
  is \<open>i\<close> and the hash of the empty string is \<open>0\<close>, so \<open>Index(0)\<close> and \<open>''\<close> meet, and
  \<open>Index.__eq__\<close> raises on the string.  \<open>hash_rep\<close> maps a component to a
  representative of its hash; other strings are taken to hash apart from every \<open>Index\<close>
  and from each other.
\<close>

fun hash_rep :: "seg \<Rightarrow> seg" where
  "hash_rep (Idx i) = Idx i"
| "hash_rep (Str s) = (if s = [] then Idx 0 else Str s)"

text \<open>
  \<open>dict.fromkeys(paths)\<close>, \<open>seen\<close> being the keys inserted so far in order: a path already
  there is skipped, a path with the hash of another key is compared with it and the
  comparison raises at the first component where a string meets an \<open>Index\<close>.
\<close>

fun fromkeys :: "path list \<Rightarrow> path list \<Rightarrow> error + path list" where
  "fromkeys seen [] = Inr seen"
| "fromkeys seen (p # ps) =
     (if p \<in> set seen then fromkeys seen ps
      else if map hash_rep p \<in> set (map (map hash_rep) seen) then Inl AttributeError
      else fromkeys (seen @ [p]) ps)"

definition collapse_paths :: "path list \<Rightarrow> error + path list" where
  "collapse_paths paths = fromkeys [] (map (map collapse_seg) paths)"

subsection \<open>\<open>_merge_paths\<close>\<close>

text \<open>
  The accumulator \<open>merged\<close>: a dict in insertion order whose values are dicts again or
  the last component of a path.  The dicts are created fresh and never shared, so the
  in-place updates through \<open>cur\<close> are updates of the tree.
\<close>

datatype node = Leaf seg | Dict "(seg \<times> node) list"

text \<open>\<open>key in cur\<close> and \<open>cur[key]\<close>: the keys with the hash of \<open>key\<close> are compared with it.\<close>

fun dict_get :: "seg \<Rightarrow> (seg \<times> node) list \<Rightarrow> error + node option" where
  "dict_get key [] = Inr None"
| "dict_get key (kv # kvs) =
     (if fst kv = key then Inr (Some (snd kv))
      else if hash_rep (fst kv) = hash_rep key then Inl AttributeError
      else dict_get key kvs)"

text \<open>\<open>cur[key] == 'NoneType'\<close>: a dict is not equal to a string.\<close>

fun eq_NoneType :: "node \<Rightarrow> error + bool" where
  "eq_NoneType (Leaf (Str s)) = Inr (s = ''NoneType'')"
| "eq_NoneType (Leaf (Idx i)) = Inl AttributeError"
| "eq_NoneType (Dict kvs) = Inr False"

text \<open>
  Lines 76 and 77: \<open>if key not in cur or cur[key] == 'NoneType': cur[key] = node\<close>.
  An assignment to a key keeps the place of a key that is there and appends a new one.
\<close>

definition bind_key :: "seg \<Rightarrow> node \<Rightarrow> (seg \<times> node) list \<Rightarrow> error + (seg \<times> node) list" where
  "bind_key key node cur =
     (case dict_get key cur of Inl e \<Rightarrow> Inl e
      | Inr None \<Rightarrow> Inr (AList.update key node cur)
      | Inr (Some old) \<Rightarrow>
          (case eq_NoneType old of Inl e \<Rightarrow> Inl e
           | Inr True \<Rightarrow> Inr (AList.update key node cur)
           | Inr False \<Rightarrow> Inr cur))"

text \<open>
  The inner loop over \<open>i\<close> from the position of \<open>key\<close> on, returning the updated \<open>cur\<close>.
  With one component left the range is exhausted.  When \<open>cur\<close> is a leaf, \<open>key not in cur\<close>
  or the subscript or the assignment raises TypeError.
\<close>

fun merge_path :: "path \<Rightarrow> node \<Rightarrow> error + node" where
  "merge_path [] cur = Inr cur"
| "merge_path [x] cur = Inr cur"
| "merge_path (key # r # rest) (Leaf l) = Inl TypeError"
| "merge_path (key # r # rest) (Dict cur) =
     (case bind_key key (if rest = [] then Leaf r else Dict []) cur of Inl e \<Rightarrow> Inl e
      | Inr cur' \<Rightarrow>
          (case dict_get key cur' of Inl e \<Rightarrow> Inl e
           | Inr None \<Rightarrow> Inl KeyError
           | Inr (Some child) \<Rightarrow>
               (case merge_path (r # rest) child of Inl e \<Rightarrow> Inl e
                | Inr child' \<Rightarrow> Inr (Dict (AList.update key child' cur')))))"

fun merge_all :: "path list \<Rightarrow> node \<Rightarrow> error + node" where
  "merge_all [] merged = Inr merged"
| "merge_all (p # ps) merged =
     (case merge_path p merged of Inl e \<Rightarrow> Inl e | Inr merged' \<Rightarrow> merge_all ps merged')"

text \<open>The value returned: a string, a list or a dict.\<close>

datatype tree = TLeaf seg | TList "tree list" | TDict "(seg \<times> tree) list"

fun is_Index :: "seg \<Rightarrow> bool" where
  "is_Index (Idx i) = True"
| "is_Index (Str s) = False"

fun convert_lists :: "node \<Rightarrow> tree" where
  "convert_lists (Leaf x) = TLeaf x"
| "convert_lists (Dict []) = TDict []"
| "convert_lists (Dict (kv # kvs)) =
     (if is_Index (fst kv) then TList (map (\<lambda>e. convert_lists (snd e)) (kv # kvs))
      else TDict (map (\<lambda>e. (fst e, convert_lists (snd e))) (kv # kvs)))"

definition merge_paths :: "path list \<Rightarrow> error + tree" where
  "merge_paths paths =
     (case merge_all paths (Dict []) of Inl e \<Rightarrow> Inl e | Inr merged \<Rightarrow> Inr (convert_lists merged))"

subsection \<open>\<open>shape\<close>\<close>

definition paths_before_merge ::
  "re_sub \<Rightarrow> (string \<times> string) list option \<Rightarrow> bool \<Rightarrow> bool \<Rightarrow> pyval \<Rightarrow> error + path list" where
  "paths_before_merge re_sub key_patterns describe_numbers sort_flag data =
     and_then (apply_patterns_paths re_sub key_patterns (get_paths describe_numbers data []))
       (\<lambda>paths. and_then (describe_numbers_paths describe_numbers paths)
       (\<lambda>paths. and_then (if sort_flag then py_sorted paths else Inr paths)
        collapse_paths))"

definition shape ::
  "re_sub \<Rightarrow> (string \<times> string) list option \<Rightarrow> bool \<Rightarrow> bool \<Rightarrow> pyval \<Rightarrow> error + tree" where
  "shape re_sub key_patterns describe_numbers sort_flag data =
     and_then (paths_before_merge re_sub key_patterns describe_numbers sort_flag data) merge_paths"

section \<open>Notions used to state the properties\<close>

text \<open>
  \<open>re.sub\<close> on the patterns of the examples below: \<open>(\<close> alone is not a regular
  expression and raises \<open>re.error\<close>; a pattern of letters, digits and underscores matches
  itself, and every occurrence is replaced from left to right (\<open>replace_all\<close>).  It is
  used at such patterns only.
\<close>

function replace_all :: "string \<Rightarrow> string \<Rightarrow> string \<Rightarrow> string" where
  "replace_all p r [] = (if p = [] then r else [])"
| "replace_all p r (c # cs) =
     (if p = [] then r @ c # replace_all p r cs
      else if take (length p) (c # cs) = p then r @ replace_all p r (drop (length p) (c # cs))
      else c # replace_all p r cs)"
  by pat_completeness auto
termination by (relation "measure (\<lambda>(p, r, s). length s)") auto

definition re_sub_ex :: re_sub where
  "re_sub_ex pattern repl s =
     (if pattern = ''('' then None else Some (replace_all pattern repl s))"

text \<open>The value found in the input by following indices and keys.\<close>

fun value_at :: "pyval \<Rightarrow> path \<Rightarrow> pyval option" where
  "value_at v [] = Some v"
| "value_at (Scalar s) (k # ks) = None"
| "value_at (Seq vs) (Idx i # ks) = (if i < length vs then value_at (vs ! i) ks else None)"
| "value_at (Seq vs) (Str k # ks) = None"
| "value_at (Map kvs) (Str k # ks) =
     (case map_of kvs k of None \<Rightarrow> None | Some v \<Rightarrow> value_at v ks)"
| "value_at (Map kvs) (Idx i # ks) = None"

text \<open>The node found in the accumulator by following keys with \<open>cur[key]\<close>.\<close>

fun node_at :: "node \<Rightarrow> path \<Rightarrow> node option" where
  "node_at n [] = Some n"
| "node_at (Leaf l) (k # ks) = None"
| "node_at (Dict cur) (k # ks) =
     (case dict_get k cur of Inr (Some n) \<Rightarrow> node_at n ks | _ \<Rightarrow> None)"

text \<open>
  Two inputs that are equal except for the insertion order of the keys of their dicts,
  at any depth.
\<close>

inductive same_up_to_key_order :: "pyval \<Rightarrow> pyval \<Rightarrow> bool" where
  scalar: "same_up_to_key_order (Scalar s) (Scalar s)"
| seq: "list_all2 same_up_to_key_order vs ws \<Longrightarrow> same_up_to_key_order (Seq vs) (Seq ws)"
| map: "list_all2 (\<lambda>kv kw. fst kv = fst kw \<and> same_up_to_key_order (snd kv) (snd kw)) kvs kws
        \<Longrightarrow> mset kws' = mset kws \<Longrightarrow> same_up_to_key_order (Map kvs) (Map kws')"

code_pred same_up_to_key_order .

definition succeeds :: "('a \<Rightarrow> error + 'b) \<Rightarrow> 'a \<Rightarrow> bool" where
  "succeeds f x = (case f x of Inl e \<Rightarrow> False | Inr y \<Rightarrow> True)"

section \<open>Evaluation and basic facts\<close>

lemmas shape_defs = shape_def paths_before_merge_def apply_patterns_paths_def
  describe_numbers_paths_def collapse_paths_def merge_paths_def leaf_label_def
  py_sorted_def comparable_def bind_key_def

lemma less_seg_simps [simp]:
  "(Idx i < Idx j) = (i < j)" "(Idx i < Str b) = True" "(Str a < Idx j) = False"
  "(Str a < Str b) = (a < b)"
  by (auto simp: less_seg_def)

lemma map_err_Inr [simp]: "map_err Inr xs = Inr xs"
  by (induction xs) simp_all

lemma apply_patterns_None [simp]: "apply_patterns re_sub None = Inr"
  by (rule ext) simp

lemma map_err_Inr_fun [simp]: "map_err Inr = Inr"
  by (rule ext) simp

text \<open>Where Python's comparisons have an answer, it is the answer of the linear order.\<close>

lemma seg_eq_iff: "seg_eq x y = Inr b \<Longrightarrow> b = (x = y)"
  by (cases x; cases y) simp_all

lemma seg_lt_less: "seg_lt x y = Inr b \<Longrightarrow> b = (x < y)"
  by (cases x; cases y) simp_all

lemma tuple_lt_less: "tuple_lt p q = Inr b \<Longrightarrow> b = (p < q)"
proof (induction p q rule: tuple_lt.induct)
  case (4 x xs y ys)
  show ?case
  proof (cases "seg_eq x y")
    case (Inl e)
    with 4(2) show ?thesis by simp
  next
    case (Inr eq)
    show ?thesis
    proof (cases eq)
      case True
      with Inr have "x = y" using seg_eq_iff by blast
      moreover from 4(2) Inr True have "tuple_lt xs ys = Inr b" by simp
      with 4(1) Inr True have "b = (xs < ys)" by simp
      ultimately show ?thesis by simp
    next
      case False
      with Inr have "x \<noteq> y" using seg_eq_iff by blast
      moreover from 4(2) Inr False have "seg_lt x y = Inr b" by simp
      then have "b = (x < y)" by (rule seg_lt_less)
      ultimately show ?thesis by simp
    qed
  qed
qed simp_all

section \<open>A scalar at the top\<close>

text \<open>
  Claim C1, spec: \<open>shape(0, describe_numbers=True)\<close> is the string \<open>"int:zero"\<close> and
  \<open>shape(3.5, describe_numbers=True)\<close> is \<open>"float:nonzero"\<close>.  The code extracts the one
  path \<open>('int:zero',)\<close>, and the merge loop, which runs over \<open>range(len(path) - 1)\<close>, binds
  nothing for it: both calls return the empty dict.
\<close>

theorem shape_top_number_is_empty_dict:
  "get_paths True (Scalar (IntV 0)) [] = [[Str ''int:zero'']]
   \<and> shape re_sub None True False (Scalar (IntV 0)) = Inr (TDict [])
   \<and> get_paths True (Scalar (FloatV (Finite 7 (- 1)))) [] = [[Str ''float:nonzero'']]
   \<and> shape re_sub None True False (Scalar (FloatV (Finite 7 (- 1)))) = Inr (TDict [])"
  by (simp add: shape_defs)

text \<open>
  Claim C9, as amended: for a scalar at the top level \<open>shape\<close> returns the empty dict for
  every \<open>describe_numbers\<close> and \<open>sort\<close>, when there are no key patterns and whenever the key
  patterns rewrite the type label without an exception; when \<open>re.sub\<close> raises on a
  pattern, \<open>shape\<close> raises that exception.
\<close>

theorem shape_scalar:
  "(kp = None \<longrightarrow> shape re_sub kp dn srt (Scalar s) = Inr (TDict []))
   \<and> (\<forall>l. apply_patterns re_sub kp (Str (leaf_label dn s)) = Inr l
         \<longrightarrow> shape re_sub kp dn srt (Scalar s) = Inr (TDict []))
   \<and> (\<forall>e. apply_patterns re_sub kp (Str (leaf_label dn s)) = Inl e
         \<longrightarrow> shape re_sub kp dn srt (Scalar s) = Inl e)"
  by (cases kp) (auto simp: shape_defs split: sum.splits)

theorem shape_scalar_witness:
  "apply_patterns re_sub_ex (Some [(''int'', ''X'')]) (Str (leaf_label True (IntV 5)))
     = Inr (Str ''X:nonzero'')
   \<and> shape re_sub_ex (Some [(''int'', ''X'')]) True True (Scalar (IntV 5)) = Inr (TDict [])"
  using shape_scalar [of "Some [(''int'', ''X'')]" re_sub_ex True True "IntV 5"]
  by (simp add: leaf_label_def re_sub_ex_def)

text \<open>
  The claim as stated, for every \<open>key_patterns\<close>, fails at a pattern that is not a regular
  expression: \<open>shape(5, key_patterns={"(": "X"})\<close> raises.
\<close>

theorem shape_scalar_bad_pattern:
  "shape re_sub_ex (Some [(''('', ''X'')]) False False (Scalar (IntV 5)) = Inl ReError"
  by (simp add: shape_defs re_sub_ex_def)

section \<open>Heterogeneous sequences\<close>

text \<open>
  Claim C2, spec: \<open>shape\<close> never raises on nested mappings, sequences and scalars.  On
  \<open>[5, {"a": 1}]\<close> the second path descends into the leaf \<open>'int'\<close> bound by the first one
  and the assignment to a string raises TypeError; in the other order the first shape
  is kept.
\<close>

theorem shape_leaf_then_dict_raises:
  "shape re_sub None False False (Seq [Scalar (IntV 5), Map [(''a'', Scalar (IntV 1))]])
     = Inl TypeError
   \<and> shape re_sub None False False (Seq [Map [(''a'', Scalar (IntV 1))], Scalar (IntV 5)])
     = Inr (TList [TDict [(Str ''a'', TLeaf (Str ''int''))]])"
  by (simp add: shape_defs)

text \<open>
  Claim C5, spec: every sequence node of the result has exactly one element.  On
  \<open>[[2], {"a": 1}]\<close> the accumulator of the elements holds the key \<open>Index(0)\<close> and the key
  \<open>'a'\<close>, and \<open>_convert_lists\<close>, which looks at the first key only, returns both values
  in one list.
\<close>

theorem shape_list_then_dict_two_elements:
  "shape re_sub None False False
     (Seq [Seq [Scalar (IntV 2)], Map [(''a'', Scalar (IntV 1))]])
   = Inr (TList [TList [TLeaf (Str ''int''), TLeaf (Str ''int'')]])"
  by (simp add: shape_defs)

section \<open>Empty containers\<close>

text \<open>
  Claim C4, as amended: an empty container yields no path and leaves no trace:
  \<open>shape([])\<close> is the empty dict and \<open>shape({"x": []})\<close> is the empty dict, for every
  \<open>describe_numbers\<close> and \<open>sort\<close>.
\<close>

theorem shape_empty_containers:
  "shape re_sub None dn srt (Seq []) = Inr (TDict [])
   \<and> shape re_sub None dn srt (Map [(''x'', Seq [])]) = Inr (TDict [])"
  by (simp add: shape_defs)

text \<open>The claim as stated fails: \<open>shape([])\<close> is not the empty list.\<close>

theorem shape_empty_list_not_list:
  "shape re_sub_ex None False False (Seq []) \<noteq> Inr (TList [])"
  by (simp add: shape_defs)

section \<open>Key patterns\<close>

text \<open>
  Claim C6, spec: the rewriting leaves the type label at the end of a path unchanged.
  \<open>_apply_patterns\<close> passes every component of a path to \<open>apply_patterns\<close>, the label
  too, which is a string: \<open>shape({"a": 1}, key_patterns={"int": "X"})\<close> is \<open>{"a": "X"}\<close>.
\<close>

theorem shape_pattern_rewrites_label:
  "apply_patterns_paths re_sub_ex (Some [(''int'', ''X'')]) [[Str ''a'', Str ''int'']]
     = Inr [[Str ''a'', Str ''X'']]
   \<and> shape re_sub_ex (Some [(''int'', ''X'')]) False False (Map [(''a'', Scalar (IntV 1))])
     = Inr (TDict [(Str ''a'', TLeaf (Str ''X''))])"
  by (simp add: shape_defs re_sub_ex_def)

section \<open>Booleans\<close>

lemma get_paths_seq_nth:
  "j < length vs \<Longrightarrow> p \<in> set (get_paths dn (vs ! j) []) \<Longrightarrow>
   Idx (i + j) # p \<in> set (get_paths_seq dn i vs [])"
proof (induction vs arbitrary: i j)
  case Nil
  then show ?case by simp
next
  case (Cons v vs)
  show ?case
  proof (cases j)
    case 0
    with Cons.prems show ?thesis by simp
  next
    case (Suc j')
    with Cons.prems Cons.IH [of j' "Suc i"] show ?thesis by simp
  qed
qed

lemma get_paths_map_of:
  "map_of kvs k = Some v \<Longrightarrow> p \<in> set (get_paths dn v []) \<Longrightarrow>
   Str k # p \<in> set (get_paths_map dn kvs [])"
  by (induction kvs) (auto split: if_splits)

lemma get_paths_value_at:
  "value_at v pos = Some (Scalar s) \<Longrightarrow>
   pos @ [Str (leaf_label dn s)] \<in> set (get_paths dn v [])"
proof (induction v pos rule: value_at.induct)
  case (3 vs i ks)
  then show ?case using get_paths_seq_nth [of i vs _ dn 0] by (auto split: if_splits)
next
  case (5 kvs k ks)
  then show ?case using get_paths_map_of by (auto split: option.splits)
qed auto

text \<open>
  Claim C10: a boolean never gets a zero/nonzero qualifier.  Its label is \<open>bool\<close> also
  with \<open>describe_numbers\<close>, and wherever the input holds a boolean, the path to that place
  ends with the label \<open>bool\<close>.
\<close>

theorem bool_label:
  "leaf_label dn (BoolV b) = ''bool''
   \<and> (value_at v pos = Some (Scalar (BoolV b))
        \<longrightarrow> pos @ [Str ''bool''] \<in> set (get_paths dn v []))"
  using get_paths_value_at [of v pos "BoolV b" dn] by (simp add: leaf_label_def)

theorem bool_label_witness:
  "value_at (Seq [Scalar (IntV 0), Map [(''ok'', Scalar (BoolV False))]]) [Idx 1, Str ''ok'']
     = Some (Scalar (BoolV False))
   \<and> [Idx 1, Str ''ok''] @ [Str ''bool'']
       \<in> set (get_paths True (Seq [Scalar (IntV 0), Map [(''ok'', Scalar (BoolV False))]]) [])"
proof -
  have h: "value_at (Seq [Scalar (IntV 0), Map [(''ok'', Scalar (BoolV False))]])
      [Idx 1, Str ''ok''] = Some (Scalar (BoolV False))"
    by simp
  from h bool_label [of True False "Seq [Scalar (IntV 0), Map [(''ok'', Scalar (BoolV False))]]"
      "[Idx 1, Str ''ok'']"]
  show ?thesis by blast
qed

section \<open>Null override\<close>

lemma dict_get_map_of: "dict_get k cur = Inr r \<Longrightarrow> map_of cur k = r"
  by (induction cur) (auto split: if_splits)

lemma dict_get_update:
  "dict_get k cur = Inr r \<Longrightarrow> dict_get k (AList.update k v cur) = Inr (Some v)"
  by (induction cur) (auto split: if_splits)

text \<open>A later leaf replaces a null leaf, at any depth \<open>p\<close> of the accumulator.\<close>

lemma null_replaced:
  "p \<noteq> [] \<Longrightarrow> node_at m p = Some (Leaf (Str ''NoneType'')) \<Longrightarrow>
   \<exists>m'. merge_path (p @ [l]) m = Inr m' \<and> node_at m' p = Some (Leaf l)"
proof (induction p arbitrary: m)
  case Nil
  then show ?case by simp
next
  case (Cons k ks)
  from Cons.prems obtain cur n where m: "m = Dict cur"
    and get: "dict_get k cur = Inr (Some n)"
    and at: "node_at n ks = Some (Leaf (Str ''NoneType''))"
    by (cases m) (auto split: sum.splits option.splits)
  show ?case
  proof (cases ks)
    case Nil
    with at have n: "n = Leaf (Str ''NoneType'')" by simp
    from get have "dict_get k (AList.update k (Leaf l) cur) = Inr (Some (Leaf l))"
      by (rule dict_get_update)
    with Nil m get n show ?thesis
      by (simp add: bind_key_def update_conv')
  next
    case (Cons k2 ks2)
    with at obtain d where n: "n = Dict d" by (cases n) auto
    from Cons.IH [of n] Cons at obtain n' where
      mp: "merge_path (ks @ [l]) n = Inr n'" and at': "node_at n' ks = Some (Leaf l)"
      by auto
    from get have "dict_get k (AList.update k n' cur) = Inr (Some n')"
      by (rule dict_get_update)
    with Cons m get n mp at' dict_get_map_of [OF get] show ?thesis
      by (simp add: bind_key_def)
  qed
qed

text \<open>
  A path into a fresh dict never fails, and leaves its last component at the end of the
  other components.
\<close>

lemma merge_path_fresh_at:
  "\<exists>d. merge_path (k # r # rest) (Dict []) = Inr (Dict d)
     \<and> node_at (Dict d) (k # butlast (r # rest)) = Some (Leaf (last (r # rest)))"
proof (induction rest arbitrary: k r)
  case Nil
  show ?case by (simp add: bind_key_def)
next
  case (Cons x xs)
  from Cons [of r x] obtain d where
    mp: "merge_path (r # x # xs) (Dict []) = Inr (Dict d)"
    and at: "node_at (Dict d) (r # butlast (x # xs)) = Some (Leaf (last (x # xs)))"
    by blast
  have "merge_path (k # r # x # xs) (Dict []) = Inr (Dict [(k, Dict d)])"
    by (subst merge_path.simps(4)) (simp add: bind_key_def mp del: merge_path.simps)
  moreover have "node_at (Dict [(k, Dict d)]) (k # butlast (r # x # xs))
      = Some (Leaf (last (r # x # xs)))"
    using at by simp
  ultimately show ?case by blast
qed

lemma node_at_append: "node_at m p = Some n \<Longrightarrow> node_at m (p @ q) = node_at n q"
proof (induction p arbitrary: m)
  case Nil
  then show ?case by simp
next
  case (Cons k ks)
  then show ?case by (cases m) (auto split: sum.splits option.splits)
qed

text \<open>
  A later path that goes on below the null leaf replaces it by the dict that the rest of
  the path builds from a fresh dict.
\<close>

lemma null_replaced_compound:
  "p \<noteq> [] \<Longrightarrow> node_at m p = Some (Leaf (Str ''NoneType'')) \<Longrightarrow>
   \<exists>m' d. merge_path (k # r # rest) (Dict []) = Inr (Dict d)
     \<and> merge_path (p @ k # r # rest) m = Inr m' \<and> node_at m' p = Some (Dict d)"
proof (induction p arbitrary: m)
  case Nil
  then show ?case by simp
next
  case (Cons k0 ks)
  from Cons.prems obtain cur n where m: "m = Dict cur"
    and get: "dict_get k0 cur = Inr (Some n)"
    and at: "node_at n ks = Some (Leaf (Str ''NoneType''))"
    by (cases m) (auto split: sum.splits option.splits)
  show ?case
  proof (cases ks)
    case Nil
    with at have n: "n = Leaf (Str ''NoneType'')" by simp
    obtain d where fresh: "merge_path (k # r # rest) (Dict []) = Inr (Dict d)"
      using merge_path_fresh_at by blast
    from get have g0: "dict_get k0 (AList.update k0 (Dict []) cur) = Inr (Some (Dict []))"
      by (rule dict_get_update)
    from get have g1: "dict_get k0 (AList.update k0 (Dict d) cur) = Inr (Some (Dict d))"
      by (rule dict_get_update)
    have "merge_path (k0 # k # r # rest) (Dict cur) = Inr (Dict (AList.update k0 (Dict d) cur))"
      by (subst merge_path.simps(4))
        (simp add: bind_key_def get n g0 fresh del: merge_path.simps)
    with Nil m g1 fresh show ?thesis
      by (simp del: merge_path.simps)
  next
    case (Cons k2 ks2)
    with at obtain d0 where n: "n = Dict d0" by (cases n) auto
    from Cons.IH [of n] Cons at obtain n' d where
      fresh: "merge_path (k # r # rest) (Dict []) = Inr (Dict d)"
      and mp: "merge_path (ks @ k # r # rest) n = Inr n'"
      and at': "node_at n' ks = Some (Dict d)"
      by auto
    from get have g: "dict_get k0 (AList.update k0 n' cur) = Inr (Some n')"
      by (rule dict_get_update)
    have "merge_path ((k0 # ks) @ k # r # rest) (Dict cur) = Inr (Dict (AList.update k0 n' cur))"
      using Cons get n mp by (simp add: bind_key_def)
    moreover have "node_at (Dict (AList.update k0 n' cur)) (k0 # ks) = Some (Dict d)"
      using g at' by simp
    ultimately show ?thesis using m fresh by blast
  qed
qed

text \<open>So the leaf of the later path is found below the position of the former null.\<close>

lemma null_replaced_by_path:
  assumes "p \<noteq> []" and "node_at m p = Some (Leaf (Str ''NoneType''))"
  shows "\<exists>m' d. merge_path (k # r # rest) (Dict []) = Inr (Dict d)
     \<and> merge_path (p @ k # r # rest) m = Inr m' \<and> node_at m' p = Some (Dict d)
     \<and> node_at m' (p @ k # butlast (r # rest)) = Some (Leaf (last (r # rest)))"
proof -
  from null_replaced_compound [OF assms, of k r rest] obtain m' d where
    fresh: "merge_path (k # r # rest) (Dict []) = Inr (Dict d)"
    and mp: "merge_path (p @ k # r # rest) m = Inr m'"
    and at: "node_at m' p = Some (Dict d)"
    by blast
  from merge_path_fresh_at [of k r rest] fresh
  have "node_at (Dict d) (k # butlast (r # rest)) = Some (Leaf (last (r # rest)))"
    by auto
  with node_at_append [OF at, of "k # butlast (r # rest)"]
  have "node_at m' (p @ k # butlast (r # rest)) = Some (Leaf (last (r # rest)))"
    by simp
  with fresh mp at show ?thesis by blast
qed

text \<open>A later leaf, null or not, leaves what is not the null leaf as it is.\<close>

lemma nonnull_kept:
  "p \<noteq> [] \<Longrightarrow> node_at m p = Some n \<Longrightarrow> eq_NoneType n = Inr False \<Longrightarrow>
   merge_path (p @ [l]) m = Inr m"
proof (induction p arbitrary: m)
  case Nil
  then show ?case by simp
next
  case (Cons k ks)
  from Cons.prems obtain cur n1 where m: "m = Dict cur"
    and get: "dict_get k cur = Inr (Some n1)"
    and at: "node_at n1 ks = Some n"
    by (cases m) (auto split: sum.splits option.splits)
  note mo = dict_get_map_of [OF get]
  show ?case
  proof (cases ks)
    case Nil
    with at have "n1 = n" by simp
    with Nil m get mo Cons.prems(3) show ?thesis
      by (simp add: bind_key_def update_triv)
  next
    case (Cons k2 ks2)
    with at obtain d where n1: "n1 = Dict d" by (cases n1) auto
    from Cons.IH [of n1] Cons at Cons.prems(3) have "merge_path (ks @ [l]) n1 = Inr n1"
      by auto
    with Cons m get mo n1 show ?thesis
      by (simp add: bind_key_def update_triv)
  qed
qed

lemma shape_None_5:
  "shape re_sub None False srt (Seq [Scalar NoneV, Scalar (IntV 5)])
     = Inr (TList [TLeaf (Str ''int'')])"
  by (cases srt) (simp_all add: shape_defs)

lemma shape_5_None:
  "shape re_sub None False srt (Seq [Scalar (IntV 5), Scalar NoneV])
     = Inr (TList [TLeaf (Str ''int'')])"
  by (cases srt) (simp_all add: shape_defs)

lemma shape_None_dict:
  "shape re_sub None False srt (Seq [Scalar NoneV, Map [(''a'', Scalar (IntV 1))]])
     = Inr (TList [TDict [(Str ''a'', TLeaf (Str ''int''))]])"
  by (cases srt) (simp_all add: shape_defs)

lemma shape_dict_None:
  "shape re_sub None False srt (Seq [Map [(''a'', Scalar (IntV 1))], Scalar NoneV])
     = Inr (TList [TDict [(Str ''a'', TLeaf (Str ''int''))]])"
  by (cases srt) (simp_all add: shape_defs)

text \<open>
  Claim C3: \<open>shape([None, 5])\<close> and \<open>shape([5, None])\<close> are both the one-element list
  of \<open>"int"\<close>, and likewise \<open>[None, {"a": 1}]\<close> and \<open>[{"a": 1}, None]\<close> both give
  \<open>[{"a": "int"}]\<close>.  At any position \<open>p\<close> of the accumulator, a null leaf is replaced by
  the leaf of a later path; a later path that goes on below \<open>p\<close> replaces it by the dict
  that the rest of the path builds from a fresh dict, with the leaf of that path at its
  end; a node that is not the null leaf is left as it is by a later null.
\<close>

theorem null_override:
  "shape re_sub None False srt (Seq [Scalar NoneV, Scalar (IntV 5)])
     = Inr (TList [TLeaf (Str ''int'')])
   \<and> shape re_sub None False srt (Seq [Scalar (IntV 5), Scalar NoneV])
     = Inr (TList [TLeaf (Str ''int'')])
   \<and> shape re_sub None False srt (Seq [Scalar NoneV, Map [(''a'', Scalar (IntV 1))]])
     = Inr (TList [TDict [(Str ''a'', TLeaf (Str ''int''))]])
   \<and> shape re_sub None False srt (Seq [Map [(''a'', Scalar (IntV 1))], Scalar NoneV])
     = Inr (TList [TDict [(Str ''a'', TLeaf (Str ''int''))]])
   \<and> (p \<noteq> [] \<and> node_at m p = Some (Leaf (Str ''NoneType'')) \<longrightarrow>
        (\<exists>m'. merge_path (p @ [l]) m = Inr m' \<and> node_at m' p = Some (Leaf l))
        \<and> (\<exists>m' d. merge_path (k # r # rest) (Dict []) = Inr (Dict d)
              \<and> merge_path (p @ k # r # rest) m = Inr m'
              \<and> node_at m' p = Some (Dict d)
              \<and> node_at m' (p @ k # butlast (r # rest)) = Some (Leaf (last (r # rest)))))
   \<and> (p \<noteq> [] \<and> node_at m p = Some n \<and> eq_NoneType n = Inr False \<longrightarrow>
        merge_path (p @ [Str ''NoneType'']) m = Inr m)"
  using shape_None_5 shape_5_None shape_None_dict shape_dict_None
    null_replaced null_replaced_by_path nonnull_kept
  by blast

theorem null_override_witness:
  "([Str ''a'', Idx 0] \<noteq> []
    \<and> node_at (Dict [(Str ''a'', Dict [(Idx 0, Leaf (Str ''NoneType''))])]) [Str ''a'', Idx 0]
        = Some (Leaf (Str ''NoneType''))
    \<and> (\<exists>m'. merge_path ([Str ''a'', Idx 0] @ [Str ''int''])
               (Dict [(Str ''a'', Dict [(Idx 0, Leaf (Str ''NoneType''))])]) = Inr m'
             \<and> node_at m' [Str ''a'', Idx 0] = Some (Leaf (Str ''int'')))
    \<and> (\<exists>m' d. merge_path (Str ''b'' # Str ''int'' # []) (Dict []) = Inr (Dict d)
             \<and> merge_path ([Str ''a'', Idx 0] @ Str ''b'' # Str ''int'' # [])
                 (Dict [(Str ''a'', Dict [(Idx 0, Leaf (Str ''NoneType''))])]) = Inr m'
             \<and> node_at m' [Str ''a'', Idx 0] = Some (Dict d)
             \<and> node_at m' ([Str ''a'', Idx 0] @ Str ''b'' # butlast (Str ''int'' # []))
                 = Some (Leaf (last (Str ''int'' # []))))
    \<and> merge_path [Str ''a'', Idx 0, Str ''b'', Str ''int'']
          (Dict [(Str ''a'', Dict [(Idx 0, Leaf (Str ''NoneType''))])])
        = Inr (Dict [(Str ''a'', Dict [(Idx 0, Dict [(Str ''b'', Leaf (Str ''int''))])])]))
   \<and> (node_at (Dict [(Str ''a'', Dict [(Idx 0, Leaf (Str ''int''))])]) [Str ''a'', Idx 0]
        = Some (Leaf (Str ''int''))
      \<and> eq_NoneType (Leaf (Str ''int'')) = Inr False
      \<and> merge_path ([Str ''a'', Idx 0] @ [Str ''NoneType''])
          (Dict [(Str ''a'', Dict [(Idx 0, Leaf (Str ''int''))])])
        = Inr (Dict [(Str ''a'', Dict [(Idx 0, Leaf (Str ''int''))])]))"
proof -
  have h0: "[Str ''a'', Idx 0] \<noteq> []"
    by simp
  have h1: "node_at (Dict [(Str ''a'', Dict [(Idx 0, Leaf (Str ''NoneType''))])])
      [Str ''a'', Idx 0] = Some (Leaf (Str ''NoneType''))"
    by simp
  have h2: "node_at (Dict [(Str ''a'', Dict [(Idx 0, Leaf (Str ''int''))])])
      [Str ''a'', Idx 0] = Some (Leaf (Str ''int''))"
    by simp
  have h3: "eq_NoneType (Leaf (Str ''int'')) = Inr False"
    by simp
  have h4: "merge_path [Str ''a'', Idx 0, Str ''b'', Str ''int'']
      (Dict [(Str ''a'', Dict [(Idx 0, Leaf (Str ''NoneType''))])])
    = Inr (Dict [(Str ''a'', Dict [(Idx 0, Dict [(Str ''b'', Leaf (Str ''int''))])])])"
    by (simp add: bind_key_def)
  from h0 h1 h2 h3 h4
    null_override [where p = "[Str ''a'', Idx 0]" and l = "Str ''int''"
      and k = "Str ''b''" and r = "Str ''int''" and rest = "[]"
      and m = "Dict [(Str ''a'', Dict [(Idx 0, Leaf (Str ''NoneType''))])]"]
    null_override [where p = "[Str ''a'', Idx 0]" and n = "Leaf (Str ''int'')"
      and m = "Dict [(Str ''a'', Dict [(Idx 0, Leaf (Str ''int''))])]"]
  show ?thesis by blast
qed

section \<open>Homogeneous collapsing\<close>

lemma fromkeys_replicate: "fromkeys [c] (replicate n c) = Inr [c]"
  by (induction n) simp_all

lemma collapse_paths_const:
  assumes "ps \<noteq> []" and "\<And>p. p \<in> set ps \<Longrightarrow> map collapse_seg p = c"
  shows "collapse_paths ps = Inr [c]"
proof -
  from assms(2) have "map (map collapse_seg) ps = replicate (length ps) c"
    by (induction ps) simp_all
  moreover from assms(1) obtain n where "length ps = Suc n" by (cases ps) auto
  ultimately show ?thesis by (simp add: collapse_paths_def fromkeys_replicate)
qed

lemma get_paths_int_rows:
  "set (get_paths_seq False i (map (\<lambda>x. Map [(''a'', Scalar (IntV x))]) xs) [])
     \<subseteq> {p. \<exists>j. p = [Idx j, Str ''a'', Str ''int'']}"
  by (induction xs arbitrary: i) (auto simp: leaf_label_def)

lemma get_paths_int_rows_nonempty:
  "xs \<noteq> [] \<Longrightarrow>
   get_paths_seq False i (map (\<lambda>x. Map [(''a'', Scalar (IntV x))]) xs) [] \<noteq> []"
  by (cases xs) (auto simp: leaf_label_def)

lemma comparable_rows:
  "comparable [Idx j, Str a, Str b] [Idx j', Str a, Str b]"
  by (cases "j = j'") (simp_all add: comparable_def)

lemma py_sorted_rows:
  assumes "set ps \<subseteq> {p. \<exists>j. p = [Idx j, Str a, Str b]}"
  shows "py_sorted ps = Inr (sort ps)"
proof -
  have "comparable p q" if "p \<in> set ps" "q \<in> set ps" for p q
    using that assms comparable_rows by blast
  then show ?thesis by (simp add: py_sorted_def list_all_iff)
qed

lemma sort_nonempty: "ps \<noteq> [] \<Longrightarrow> sort ps \<noteq> []" for ps :: "path list"
  by (cases ps) simp_all

text \<open>
  Claim C7: for every non-empty sequence of mappings \<open>{"a": <integer>}\<close>, of any length,
  \<open>shape\<close> returns the one-element list of \<open>{"a": "int"}\<close>, with and without \<open>sort\<close>.
\<close>

theorem homogeneous_collapsing:
  assumes "xs \<noteq> []"
  shows "shape re_sub None False srt (Seq (map (\<lambda>x. Map [(''a'', Scalar (IntV x))]) xs))
     = Inr (TList [TDict [(Str ''a'', TLeaf (Str ''int''))]])"
proof -
  let ?ps = "get_paths_seq False 0 (map (\<lambda>x. Map [(''a'', Scalar (IntV x))]) xs) []"
  let ?c = "[Idx 0, Str ''a'', Str ''int'']"
  note sub = get_paths_int_rows [of 0 xs]
  have ne: "?ps \<noteq> []" using assms by (rule get_paths_int_rows_nonempty)
  have c1: "collapse_paths ?ps = Inr [?c]"
    using ne sub by (intro collapse_paths_const) auto
  have "sort ?ps \<noteq> []" using ne by (rule sort_nonempty)
  then have c2: "collapse_paths (sort ?ps) = Inr [?c]"
    using sub by (intro collapse_paths_const) auto
  have m: "merge_paths [?c] = Inr (TList [TDict [(Str ''a'', TLeaf (Str ''int''))]])"
    by (simp add: merge_paths_def bind_key_def)
  show ?thesis
    using c1 c2 m py_sorted_rows [OF sub]
    by (cases srt) (simp_all add: shape_def paths_before_merge_def apply_patterns_paths_def
        describe_numbers_paths_def)
qed

theorem homogeneous_collapsing_witness:
  "[1, 2, 3] \<noteq> ([] :: int list)
   \<and> shape re_sub_ex None False False
        (Seq (map (\<lambda>x. Map [(''a'', Scalar (IntV x))]) [1, 2, 3]))
     = Inr (TList [TDict [(Str ''a'', TLeaf (Str ''int''))]])"
proof -
  have h: "[1, 2, 3] \<noteq> ([] :: int list)"
    by simp
  from h homogeneous_collapsing [OF h, of re_sub_ex False] show ?thesis by blast
qed

section \<open>Determinism under \<open>sort\<close>\<close>

lemma get_paths_seq_mset:
  "list_all2 (\<lambda>v w. mset (get_paths dn v pre) = mset (get_paths dn w pre)) vs ws \<Longrightarrow>
   mset (get_paths_seq dn i vs pre) = mset (get_paths_seq dn i ws pre)"
  by (induction vs ws arbitrary: i rule: list_all2_induct) simp_all

lemma get_paths_map_mset:
  "list_all2 (\<lambda>kv kw. fst kv = fst kw
      \<and> mset (get_paths dn (snd kv) pre) = mset (get_paths dn (snd kw) pre)) kvs kws \<Longrightarrow>
   mset (get_paths_map dn kvs pre) = mset (get_paths_map dn kws pre)"
  by (induction kvs kws rule: list_all2_induct) simp_all

lemma get_paths_map_sum:
  "mset (get_paths_map dn kvs pre) =
   (\<Sum>kv\<in>#mset kvs.
      mset (map (\<lambda>kvp. pre @ kvp) (map (\<lambda>p. Str (fst kv) # p) (get_paths dn (snd kv) pre))))"
  by (induction kvs) simp_all

lemma get_paths_map_perm:
  "mset kvs = mset kws \<Longrightarrow>
   mset (get_paths_map dn kvs pre) = mset (get_paths_map dn kws pre)"
  by (simp add: get_paths_map_sum)

text \<open>The two inputs have the same paths, in another order.\<close>

lemma get_paths_reorder:
  "same_up_to_key_order v w \<Longrightarrow> mset (get_paths dn v pre) = mset (get_paths dn w pre)"
proof (induction rule: same_up_to_key_order.induct)
  case (scalar s)
  show ?case by simp
next
  case (seq vs ws)
  then have "list_all2 (\<lambda>v w. mset (get_paths dn v pre) = mset (get_paths dn w pre)) vs ws"
    by (rule list_all2_mono) simp
  then show ?case by (simp add: get_paths_seq_mset)
next
  case (map kvs kws kws')
  from map(1) have "list_all2 (\<lambda>kv kw. fst kv = fst kw
      \<and> mset (get_paths dn (snd kv) pre) = mset (get_paths dn (snd kw) pre)) kvs kws"
    by (rule list_all2_mono) simp
  then have "mset (get_paths_map dn kvs pre) = mset (get_paths_map dn kws pre)"
    by (rule get_paths_map_mset)
  with get_paths_map_perm [OF map(2), of dn pre] show ?case by simp
qed

lemma sub_all_error: "sub_all re_sub ps s = Inl e \<Longrightarrow> e = ReError"
  by (induction ps arbitrary: s) (auto split: option.splits)

lemma apply_patterns_error: "apply_patterns re_sub kp x = Inl e \<Longrightarrow> e = ReError"
  by (cases kp; cases x) (auto split: sum.splits dest: sub_all_error)

lemma map_err_char:
  assumes "\<And>x e. f x = Inl e \<Longrightarrow> e = c"
  shows "map_err f xs =
    (if list_all (succeeds f) xs then Inr (map (\<lambda>x. projr (f x)) xs) else Inl c)"
  using assms by (induction xs) (auto simp: succeeds_def split: sum.splits)

lemma map_err_perm:
  assumes "\<And>x e. f x = Inl e \<Longrightarrow> e = c" and "mset xs = mset ys"
  shows "(map_err f xs = Inl c \<and> map_err f ys = Inl c)
     \<or> (\<exists>xs' ys'. map_err f xs = Inr xs' \<and> map_err f ys = Inr ys' \<and> mset xs' = mset ys')"
proof -
  from assms(2) have s: "set xs = set ys" by (rule mset_eq_setD)
  have m: "mset (map (\<lambda>x. projr (f x)) xs) = mset (map (\<lambda>x. projr (f x)) ys)"
    using assms(2) by simp
  show ?thesis
    using s m by (simp add: map_err_char [of f c, OF assms(1)] list_all_iff)
qed

lemma apply_patterns_paths_perm:
  assumes "mset ps = mset qs"
  shows "(apply_patterns_paths re_sub kp ps = Inl ReError
      \<and> apply_patterns_paths re_sub kp qs = Inl ReError)
     \<or> (\<exists>ps' qs'. apply_patterns_paths re_sub kp ps = Inr ps'
          \<and> apply_patterns_paths re_sub kp qs = Inr qs' \<and> mset ps' = mset qs')"
proof -
  have inner: "map_err (apply_patterns re_sub kp) p = Inl e \<Longrightarrow> e = ReError" for p e
    using map_err_char [of "apply_patterns re_sub kp" ReError p] apply_patterns_error
    by (auto split: if_splits)
  show ?thesis unfolding apply_patterns_paths_def
    using inner assms by (rule map_err_perm)
qed

lemma py_sorted_perm: "mset ps = mset qs \<Longrightarrow> py_sorted ps = py_sorted qs"
proof -
  assume a: "mset ps = mset qs"
  then have s: "set ps = set qs" by (rule mset_eq_setD)
  have "sort ps = sort qs"
    by (rule properties_for_sort) (simp_all add: a)
  with s show ?thesis by (simp add: py_sorted_def list_all_iff)
qed

lemma paths_before_merge_perm:
  assumes "mset (get_paths dn v []) = mset (get_paths dn w [])"
  shows "paths_before_merge re_sub kp dn True v = paths_before_merge re_sub kp dn True w"
proof -
  from apply_patterns_paths_perm [OF assms, of re_sub kp]
  consider "apply_patterns_paths re_sub kp (get_paths dn v []) = Inl ReError"
      "apply_patterns_paths re_sub kp (get_paths dn w []) = Inl ReError"
    | ps' qs' where "apply_patterns_paths re_sub kp (get_paths dn v []) = Inr ps'"
      "apply_patterns_paths re_sub kp (get_paths dn w []) = Inr qs'" "mset ps' = mset qs'"
    by blast
  then show ?thesis
  proof cases
    case 1
    then show ?thesis by (simp add: paths_before_merge_def)
  next
    case 2
    from 2(3) have "set ps' = set qs'" by (rule mset_eq_setD)
    with 2 py_sorted_perm [OF 2(3)] show ?thesis
      by (simp add: paths_before_merge_def describe_numbers_paths_def)
  qed
qed

text \<open>
  Claim C8: for two inputs that are equal except for the insertion order of the keys of
  their mappings, \<open>shape\<close> with \<open>sort=True\<close> hands the same list of paths to the merge, and
  so returns the same result (or raises in both cases), for every \<open>key_patterns\<close> and
  \<open>describe_numbers\<close>.
\<close>

theorem sort_determinism:
  assumes "same_up_to_key_order v w"
  shows "paths_before_merge re_sub kp dn True v = paths_before_merge re_sub kp dn True w
    \<and> shape re_sub kp dn True v = shape re_sub kp dn True w"
proof -
  from assms have "mset (get_paths dn v []) = mset (get_paths dn w [])"
    by (rule get_paths_reorder)
  then have "paths_before_merge re_sub kp dn True v = paths_before_merge re_sub kp dn True w"
    by (rule paths_before_merge_perm)
  then show ?thesis by (simp add: shape_def)
qed

theorem sort_determinism_witness:
  "same_up_to_key_order
     (Map [(''b'', Scalar (IntV 1)),
           (''a'', Seq [Map [(''y'', Scalar NoneV), (''x'', Scalar (StrV ''s''))]])])
     (Map [(''a'', Seq [Map [(''x'', Scalar (StrV ''s'')), (''y'', Scalar NoneV)]]),
           (''b'', Scalar (IntV 1))])
   \<and> paths_before_merge re_sub_ex None False True
       (Map [(''b'', Scalar (IntV 1)),
             (''a'', Seq [Map [(''y'', Scalar NoneV), (''x'', Scalar (StrV ''s''))]])])
     = paths_before_merge re_sub_ex None False True
       (Map [(''a'', Seq [Map [(''x'', Scalar (StrV ''s'')), (''y'', Scalar NoneV)]]),
             (''b'', Scalar (IntV 1))])
   \<and> shape re_sub_ex None False True
       (Map [(''b'', Scalar (IntV 1)),
             (''a'', Seq [Map [(''y'', Scalar NoneV), (''x'', Scalar (StrV ''s''))]])])
     = shape re_sub_ex None False True
       (Map [(''a'', Seq [Map [(''x'', Scalar (StrV ''s'')), (''y'', Scalar NoneV)]]),
             (''b'', Scalar (IntV 1))])"
proof -
  have h: "same_up_to_key_order
     (Map [(''b'', Scalar (IntV 1)),
           (''a'', Seq [Map [(''y'', Scalar NoneV), (''x'', Scalar (StrV ''s''))]])])
     (Map [(''a'', Seq [Map [(''x'', Scalar (StrV ''s'')), (''y'', Scalar NoneV)]]),
           (''b'', Scalar (IntV 1))])"
    by (rule same_up_to_key_order.map [where kws = "[(''b'', Scalar (IntV 1)),
          (''a'', Seq [Map [(''x'', Scalar (StrV ''s'')), (''y'', Scalar NoneV)]])]"])
      (auto intro!: same_up_to_key_order.scalar same_up_to_key_order.seq
        same_up_to_key_order.map [where kws = "[(''y'', Scalar NoneV),
          (''x'', Scalar (StrV ''s''))]"])
  from h sort_determinism [OF h, of re_sub_ex None False] show ?thesis by blast
qed

end
